theory Spec2Isabelle
  imports Main "HOL-Library.Word" "HOL-Library.Char_ord" "HOL-Library.List_Lexorder"
begin

section \<open>mygit: a shallow embedding of main.cpp\<close>

text \<open>
  The program is one C++ file, \<^verbatim>\<open>src/main.cpp\<close>. A \<^verbatim>\<open>std::string\<close> is a byte
  sequence and is modelled as \<^typ>\<open>string\<close> (a list of \<^typ>\<open>char\<close>). Positions are
  natural numbers; \<^verbatim>\<open>string::npos\<close> is \<^term>\<open>None\<close>.
\<close>

subsection \<open>Characters and \<^verbatim>\<open>std::string\<close> primitives\<close>

abbreviation NUL :: char where "NUL \<equiv> CHR 0x00"
abbreviation NL :: char where "NL \<equiv> CHR 0x0A"
abbreviation BSL :: char where "BSL \<equiv> CHR 0x5C"
abbreviation SLASH :: char where "SLASH \<equiv> CHR 0x2F"
abbreviation SPC :: char where "SPC \<equiv> CHR 0x20"

text \<open>\<^verbatim>\<open>s.find(c)\<close> from the start of the string: the first index holding \<open>c\<close>.\<close>

fun find_first :: "char \<Rightarrow> string \<Rightarrow> nat option" where
  "find_first c [] = None"
| "find_first c (x # xs) =
     (if x = c then Some 0
      else case find_first c xs of None \<Rightarrow> None | Some i \<Rightarrow> Some (Suc i))"

text \<open>\<^verbatim>\<open>s.find(c, pos)\<close>: the first index \<open>\<ge> pos\<close> holding \<open>c\<close>; \<open>npos\<close> when \<open>pos\<close> is
  past the end.\<close>

definition find_from :: "char \<Rightarrow> nat \<Rightarrow> string \<Rightarrow> nat option" where
  "find_from c pos s =
     (case find_first c (drop pos s) of None \<Rightarrow> None | Some i \<Rightarrow> Some (pos + i))"

text \<open>\<^verbatim>\<open>s.substr(pos, n)\<close> and \<^verbatim>\<open>s.substr(pos)\<close> for \<open>pos \<le> size\<close> (the library throws
  \<^verbatim>\<open>out_of_range\<close> beyond that; each use below says why it stays in range, or models
  the throw).\<close>

definition substr :: "string \<Rightarrow> nat \<Rightarrow> nat \<Rightarrow> string" where
  "substr s pos n = take n (drop pos s)"

definition substr_from :: "string \<Rightarrow> nat \<Rightarrow> string" where
  "substr_from s pos = drop pos s"

text \<open>\<^verbatim>\<open>s.find_last_of(cs)\<close> (and \<^verbatim>\<open>s.rfind(c)\<close>, with \<open>cs = [c]\<close>): the last index
  holding one of the characters \<open>cs\<close>.\<close>

fun find_last_of :: "string \<Rightarrow> string \<Rightarrow> nat option" where
  "find_last_of cs [] = None"
| "find_last_of cs (x # xs) =
     (case find_last_of cs xs of
        Some i \<Rightarrow> Some (Suc i)
      | None \<Rightarrow> if x \<in> set cs then Some 0 else None)"

text \<open>\<^verbatim>\<open>std::to_string\<close> of an unsigned size: the decimal digits, most significant first.\<close>

definition digit_char :: "nat \<Rightarrow> char" where
  "digit_char d = ''0123456789'' ! d"

fun to_string :: "nat \<Rightarrow> string" where
  "to_string n = (if n < 10 then [digit_char n] else to_string (n div 10) @ [digit_char (n mod 10)])"

declare to_string.simps [simp del]

text \<open>\<^verbatim>\<open>getFilename\<close>, lines 20-28.\<close>

definition getFilename :: "string \<Rightarrow> string" where
  "getFilename p =
     (case find_last_of [BSL, SLASH] p of
        Some pos \<Rightarrow> substr_from p (pos + 1)
      | None \<Rightarrow> p)"

subsection \<open>Blob objects\<close>

text \<open>\<^verbatim>\<open>createBlob\<close>, line 187: the serialization handed to \<^verbatim>\<open>computeSHA1\<close> and
  \<^verbatim>\<open>writeObject\<close> for a file of content \<open>content\<close>.\<close>

definition blobData :: "string \<Rightarrow> string" where
  "blobData content = ''blob '' @ to_string (length content) @ [NUL] @ content"

text \<open>\<^verbatim>\<open>restoreTree\<close>, lines 609-617: the content taken from a blob serialization.
  \<^term>\<open>None\<close> is the \<^verbatim>\<open>continue\<close> taken on an empty object or on one without a null
  byte.\<close>

definition decode_blob :: "string \<Rightarrow> string option" where
  "decode_blob blobData' =
     (if blobData' = [] then None
      else case find_first NUL blobData' of
             None \<Rightarrow> None
           | Some nullPos \<Rightarrow> Some (substr_from blobData' (nullPos + 1)))"

subsection \<open>Tree objects\<close>

record IndexEntry =
  path :: string
  sha :: string
  mode :: string

record TreeEntry =
  mode :: string
  name :: string
  sha :: string
  isTree :: bool

text \<open>\<^verbatim>\<open>listDirectory\<close>, lines 243-245: the entries collected from a directory are
  sorted by name (\<^verbatim>\<open>a.name < b.name\<close> compares bytes) before \<^verbatim>\<open>createTree\<close> encodes
  them. The names of one directory are distinct, so the sorted order is unique.\<close>

definition listDirectory_sort :: "TreeEntry list \<Rightarrow> TreeEntry list" where
  "listDirectory_sort entries = sort_key name entries"

text \<open>\<^verbatim>\<open>createTree\<close>, lines 255-263: the loop that streams every entry into
  \<^verbatim>\<open>treeContent\<close>, and the serialization built from it. The entries are those of
  \<^verbatim>\<open>listDirectory\<close>; nothing in \<^verbatim>\<open>createTree\<close> inspects them.\<close>

definition treeContent :: "TreeEntry list \<Rightarrow> string" where
  "treeContent entries =
     foldl (\<lambda>out entry. out @ mode entry @ [SPC] @ name entry @ [NUL] @ sha entry) [] entries"

definition treeData :: "TreeEntry list \<Rightarrow> string" where
  "treeData entries =
     ''tree '' @ to_string (length (treeContent entries)) @ [NUL] @ treeContent entries"

text \<open>\<^verbatim>\<open>createTreeFromIndex\<close>, lines 502-510: the same for the entries of the index,
  in the order \<^verbatim>\<open>readIndex\<close> returned them.\<close>

definition indexTreeContent :: "IndexEntry list \<Rightarrow> string" where
  "indexTreeContent index =
     foldl (\<lambda>out entry. out @ IndexEntry.mode entry @ [SPC] @ getFilename (path entry)
                            @ [NUL] @ IndexEntry.sha entry) [] index"

definition indexTreeData :: "IndexEntry list \<Rightarrow> string" where
  "indexTreeData index =
     ''tree '' @ to_string (length (indexTreeContent index)) @ [NUL] @ indexTreeContent index"

text \<open>\<^verbatim>\<open>parseTree\<close>, lines 285-309: the \<^verbatim>\<open>while\<close> loop over \<open>pos\<close>. Every
  \<^verbatim>\<open>break\<close> returns the entries collected so far. The three \<^verbatim>\<open>substr\<close> calls start
  at positions \<open>\<le> size\<close>, so none throws.\<close>

function parseTree_loop :: "string \<Rightarrow> nat \<Rightarrow> TreeEntry list \<Rightarrow> TreeEntry list" where
  "parseTree_loop td pos entries =
     (if pos < length td then
        (case find_from SPC pos td of
           None \<Rightarrow> entries
         | Some spacePos \<Rightarrow>
             (case find_from NUL (spacePos + 1) td of
                None \<Rightarrow> entries
              | Some nullPos2 \<Rightarrow>
                  if nullPos2 + 1 + 40 > length td then entries
                  else parseTree_loop td (nullPos2 + 1 + 40)
                         (entries @
                           [\<lparr>mode = substr td pos (spacePos - pos),
                             name = substr td (spacePos + 1) (nullPos2 - (spacePos + 1)),
                             sha = substr td (nullPos2 + 1) 40,
                             isTree = (substr td pos (spacePos - pos) = ''040000'')\<rparr>])))
      else entries)"
  by pat_completeness auto

lemma find_first_bound: "find_first c s = Some i \<Longrightarrow> i < length s"
  by (induction s arbitrary: i) (auto split: if_splits option.splits)

lemma find_from_bounds: "find_from c pos s = Some i \<Longrightarrow> pos \<le> i \<and> i < length s"
  by (auto simp: find_from_def split: option.splits dest: find_first_bound)

termination parseTree_loop
proof (relation "measure (\<lambda>(td, pos, entries). length td - pos)")
  show "wf (measure (\<lambda>(td, pos, entries). length td - pos))" by simp
next
  fix td :: string and pos :: nat and entries :: "TreeEntry list" and spacePos nullPos2
  assume "pos < length td"
    and sp: "find_from SPC pos td = Some spacePos"
    and nu: "find_from NUL (spacePos + 1) td = Some nullPos2"
    and "\<not> length td < nullPos2 + 1 + 40"
  from find_from_bounds [OF sp] find_from_bounds [OF nu] \<open>pos < length td\<close>
  show "((td, nullPos2 + 1 + 40,
          entries @
          [\<lparr>mode = substr td pos (spacePos - pos),
            name = substr td (spacePos + 1) (nullPos2 - (spacePos + 1)),
            sha = substr td (nullPos2 + 1) 40,
            isTree = (substr td pos (spacePos - pos) = ''040000'')\<rparr>]),
         td, pos, entries)
        \<in> measure (\<lambda>(td, pos, entries). length td - pos)"
    by auto
qed

declare parseTree_loop.simps [simp del]

text \<open>\<^verbatim>\<open>parseTree\<close>, lines 275-311, on \<open>td\<close>, the serialization \<^verbatim>\<open>readObject\<close>
  returned for the tree (empty when the object is missing or does not decompress).\<close>

definition parseTree :: "string \<Rightarrow> TreeEntry list" where
  "parseTree td =
     (if td = [] then []
      else case find_first NUL td of
             None \<Rightarrow> []
           | Some nullPos \<Rightarrow> parseTree_loop td (nullPos + 1) [])"

text \<open>Vocabulary for stating properties of the two functions above: the bytes one
  entry contributes to a tree body, the entry \<^verbatim>\<open>parseTree\<close> builds from such bytes
  (\<^verbatim>\<open>isTree\<close> is recomputed from the mode), the entries whose bytes can be read back
  (a mode without a space, a name without a null byte, a 40-character digest), the
  tree entry \<^verbatim>\<open>createTreeFromIndex\<close> writes for an index entry, and a partial
  trailing record: a non-empty tail that stops inside the mode (no space), inside the
  name (no null byte after the space) or inside the digest (fewer than 40 bytes after
  the null byte).\<close>

definition entry_bytes :: "TreeEntry \<Rightarrow> string" where
  "entry_bytes e = mode e @ [SPC] @ name e @ [NUL] @ sha e"

definition parsed :: "TreeEntry \<Rightarrow> TreeEntry" where
  "parsed e = \<lparr>mode = mode e, name = name e, sha = sha e, isTree = (mode e = ''040000'')\<rparr>"

definition wf_entry :: "TreeEntry \<Rightarrow> bool" where
  "wf_entry e \<longleftrightarrow> SPC \<notin> set (mode e) \<and> NUL \<notin> set (name e) \<and> length (sha e) = 40"

definition index_entry :: "IndexEntry \<Rightarrow> TreeEntry" where
  "index_entry e =
     \<lparr>mode = IndexEntry.mode e, name = getFilename (path e), sha = IndexEntry.sha e,
      isTree = (IndexEntry.mode e = ''040000'')\<rparr>"

definition truncated_record :: "string \<Rightarrow> bool" where
  "truncated_record t \<longleftrightarrow>
     t \<noteq> [] \<and>
     (let afterMode = dropWhile (\<lambda>c. c \<noteq> SPC) t in
      afterMode = [] \<or>
      (let afterName = dropWhile (\<lambda>c. c \<noteq> NUL) (tl afterMode) in
       afterName = [] \<or> length (tl afterName) < 40))"

subsection \<open>Line and token input\<close>

text \<open>The lines a \<^verbatim>\<open>while (getline(stream, line))\<close> loop sees: each line ends at a
  newline, which is dropped; a last line without a newline is still delivered; at the
  end of the input \<^verbatim>\<open>getline\<close> fails and the loop stops. \<open>cur\<close> holds the
  characters of the line being read.\<close>

fun getlines_from :: "string \<Rightarrow> string \<Rightarrow> string list" where
  "getlines_from cur [] = (if cur = [] then [] else [cur])"
| "getlines_from cur (c # cs) =
     (if c = NL then cur # getlines_from [] cs else getlines_from (cur @ [c]) cs)"

definition getlines :: "string \<Rightarrow> string list" where
  "getlines s = getlines_from [] s"

text \<open>\<^verbatim>\<open>stream >> word\<close> for a \<^verbatim>\<open>std::string\<close>: skip white space (the six characters
  of \<^verbatim>\<open>isspace\<close> in the C locale), then take characters up to the next white space.
  At the end of the input nothing is extracted and the word stays empty, as do the
  words of all later extractions. The result is the word and the rest of the input.\<close>

definition is_space :: "char \<Rightarrow> bool" where
  "is_space c \<longleftrightarrow> c \<in> set [SPC, CHR 0x09, NL, CHR 0x0B, CHR 0x0C, CHR 0x0D]"

definition extract_word :: "string \<Rightarrow> string \<times> string" where
  "extract_word s =
     (let s' = dropWhile is_space s
      in (takeWhile (\<lambda>c. \<not> is_space c) s', dropWhile (\<lambda>c. \<not> is_space c) s'))"

subsection \<open>The index file\<close>

text \<open>\<^verbatim>\<open>readIndex\<close>, lines 427-433, on the text of the index file: one entry per line,
  whatever the line holds (\<^verbatim>\<open>iss >> entry.mode >> entry.sha >> entry.path\<close>).\<close>

definition parseIndexLine :: "string \<Rightarrow> IndexEntry" where
  "parseIndexLine line =
     (let (m, r1) = extract_word line;
          (d, r2) = extract_word r1;
          (p, r3) = extract_word r2
      in \<lparr>path = p, sha = d, mode = m\<rparr>)"

definition parseIndex :: "string \<Rightarrow> IndexEntry list" where
  "parseIndex text = map parseIndexLine (getlines text)"

subsection \<open>Commit objects\<close>

text \<open>\<^verbatim>\<open>stream << now\<close> for a \<^verbatim>\<open>time_t\<close>: a signed decimal.\<close>

definition show_int :: "int \<Rightarrow> string" where
  "show_int i = (if i < 0 then CHR ''-'' # to_string (nat (- i)) else to_string (nat i))"

text \<open>\<^verbatim>\<open>createCommit\<close>, lines 323-335: the text streamed into \<^verbatim>\<open>commitContent\<close> and the
  serialization built from it. \<open>now\<close> is the value \<^verbatim>\<open>time(nullptr)\<close> returned.\<close>

definition commitContent :: "string \<Rightarrow> string \<Rightarrow> string \<Rightarrow> int \<Rightarrow> string" where
  "commitContent tsha psha msg now =
     ''tree '' @ tsha @ [NL] @
     (if psha \<noteq> [] \<and> psha \<noteq> ''0000000000000000000000000000000000000000''
      then ''parent '' @ psha @ [NL] else []) @
     ''author User <user@example.com> '' @ show_int now @ '' +0000'' @ [NL] @
     ''committer User <user@example.com> '' @ show_int now @ '' +0000'' @ [NL] @
     [NL] @ msg @ [NL]"

definition commitData :: "string \<Rightarrow> string \<Rightarrow> string \<Rightarrow> int \<Rightarrow> string" where
  "commitData tsha psha msg now =
     ''commit '' @ to_string (length (commitContent tsha psha msg now)) @ [NUL]
       @ commitContent tsha psha msg now"

record CommitInfo =
  treeSha :: string
  parentSha :: string
  author :: string
  committer :: string
  message :: string
  timestamp :: string

definition emptyCommitInfo :: CommitInfo where
  "emptyCommitInfo =
     \<lparr>treeSha = [], parentSha = [], author = [], committer = [], message = [], timestamp = []\<rparr>"

text \<open>\<^verbatim>\<open>parseCommit\<close>, lines 374-394: what one non-empty header line does to \<open>info\<close>.
  Each \<^verbatim>\<open>substr(k)\<close> follows a successful comparison of the first \<open>k\<close> characters, so it
  is in range.\<close>

definition headerLine :: "CommitInfo \<Rightarrow> string \<Rightarrow> CommitInfo" where
  "headerLine info line =
     (if substr line 0 5 = ''tree '' then info\<lparr>treeSha := substr_from line 5\<rparr>
      else if substr line 0 7 = ''parent '' then info\<lparr>parentSha := substr_from line 7\<rparr>
      else if substr line 0 7 = ''author '' then info\<lparr>author := substr_from line 7\<rparr>
      else if substr line 0 10 = ''committer '' then
        (let c = substr_from line 10
         in case find_last_of [SPC] c of
              None \<Rightarrow> info\<lparr>committer := c\<rparr>
            | Some timePos \<Rightarrow> info\<lparr>committer := c, timestamp := substr_from c (timePos + 1)\<rparr>)
      else info)"

text \<open>The first loop of \<^verbatim>\<open>parseCommit\<close>, lines 369-395, over the lines still unread:
  it stops after the first empty line, or at the end of the input. The result is the
  record and the lines left for the second loop.\<close>

fun parseHeaders :: "CommitInfo \<Rightarrow> string list \<Rightarrow> CommitInfo \<times> string list" where
  "parseHeaders info [] = (info, [])"
| "parseHeaders info (line # rest) =
     (if line = [] then (info, rest) else parseHeaders (headerLine info line) rest)"

text \<open>\<^verbatim>\<open>parseCommit\<close>, lines 358-403, on \<open>cd\<close>, the serialization \<^verbatim>\<open>readObject\<close>
  returned for the commit.\<close>

definition parseCommit :: "string \<Rightarrow> CommitInfo" where
  "parseCommit cd =
     (if cd = [] then emptyCommitInfo
      else case find_first NUL cd of
             None \<Rightarrow> emptyCommitInfo
           | Some nullPos \<Rightarrow>
               (let (info, rest) = parseHeaders emptyCommitInfo (getlines (substr_from cd (nullPos + 1)))
                in info\<lparr>message := foldl (\<lambda>m line. m @ line @ [NL]) (message info) rest\<rparr>))"

text \<open>The lines the first loop of \<^verbatim>\<open>parseCommit\<close> reads as headers (those before the
  first empty line), and the test it applies to recognise a parent line.\<close>

definition headerLines :: "string \<Rightarrow> string list" where
  "headerLines payload = takeWhile (\<lambda>line. line \<noteq> []) (getlines payload)"

definition isParentLine :: "string \<Rightarrow> bool" where
  "isParentLine line \<longleftrightarrow> substr line 0 7 = ''parent ''"

text \<open>The author and committer lines of \<^verbatim>\<open>createCommit\<close> (lines 329-330), and its test
  for writing a parent line (line 325), named for use in statements.\<close>

definition authorLine :: "int \<Rightarrow> string" where
  "authorLine now = ''author User <user@example.com> '' @ show_int now @ '' +0000''"

definition committerLine :: "int \<Rightarrow> string" where
  "committerLine now = ''committer User <user@example.com> '' @ show_int now @ '' +0000''"

definition hasParent :: "string \<Rightarrow> bool" where
  "hasParent psha \<longleftrightarrow> psha \<noteq> [] \<and> psha \<noteq> ''0000000000000000000000000000000000000000''"

subsection \<open>The repository on disk\<close>

text \<open>
  The files the program reads and writes are a map from path strings to contents
  (\<open>files\<close>; directories are not represented, and \<^verbatim>\<open>fs::exists\<close> is membership in the
  map). \<open>writable p\<close> says whether opening \<open>p\<close> for writing succeeds, parent directories
  included; it is the environment's answer and no operation changes it. \<open>trace\<close> records,
  in order, every write that took effect and every line printed. Contents are the
  characters the C++ streams deliver; the newline translation of text-mode streams is
  not modelled. What the program cannot compute itself comes from outside: the 20 bytes
  of the SHA-1 digest of a string (\<open>SHA1 data i\<close> is \<^verbatim>\<open>hash[i]\<close>), and the result of
  zlib's \<^verbatim>\<open>compress\<close> into a buffer of \<^verbatim>\<open>compressBound\<close> bytes (\<^term>\<open>None\<close> when it
  does not return \<^verbatim>\<open>Z_OK\<close>). The faults are the ways the program can throw or leave the
  language's defined behaviour: \<^verbatim>\<open>substr\<close> past the end, \<^verbatim>\<open>back()\<close> of an empty
  string, and a buffer that cannot be allocated.
\<close>

datatype effect = FileWrite string string | FileAppend string string | Stdout string | Stderr string

datatype fault = OutOfRange | UndefinedBehaviour | AllocationFailure

record world =
  files :: "string \<Rightarrow> string option"
  writable :: "string \<Rightarrow> bool"
  trace :: "effect list"

record env =
  SHA1 :: "string \<Rightarrow> nat \<Rightarrow> 8 word"
  compress :: "string \<Rightarrow> string option"

definition REPO_DIR :: string where
  "REPO_DIR = ''.mygit''"

definition indexPath :: string where
  "indexPath = REPO_DIR @ [BSL] @ ''index''"

definition headPath :: string where
  "headPath = REPO_DIR @ [BSL] @ ''HEAD''"

definition logPath :: string where
  "logPath = REPO_DIR @ [BSL] @ ''logs'' @ [BSL] @ ''HEAD''"

definition emit :: "world \<Rightarrow> effect \<Rightarrow> world" where
  "emit W e = W\<lparr>trace := trace W @ [e]\<rparr>"

text \<open>\<^verbatim>\<open>fileExists\<close>, \<^verbatim>\<open>readFile\<close> and \<^verbatim>\<open>writeFile\<close>, lines 95-134.\<close>

definition fileExists :: "world \<Rightarrow> string \<Rightarrow> bool" where
  "fileExists W p \<longleftrightarrow> files W p \<noteq> None"

definition readFile :: "world \<Rightarrow> string \<Rightarrow> string \<times> world" where
  "readFile W p =
     (case files W p of
        None \<Rightarrow> ([], emit W (Stderr (''Error: Cannot read file '' @ p @ [NL])))
      | Some content \<Rightarrow> (content, W))"

definition writeFile :: "world \<Rightarrow> string \<Rightarrow> string \<Rightarrow> world" where
  "writeFile W p data =
     (if writable W p
      then W\<lparr>files := (files W)(p \<mapsto> data), trace := trace W @ [FileWrite p data]\<rparr>
      else emit W (Stderr (''Error: Cannot write file '' @ p @ [NL])))"

text \<open>\<^verbatim>\<open>computeSHA1\<close>, lines 33-45: each of the 20 digest bytes as two lowercase
  hexadecimal digits (\<^verbatim>\<open>hex\<close>, \<^verbatim>\<open>setw(2)\<close>, \<^verbatim>\<open>setfill('0')\<close>).\<close>

definition hex_char :: "nat \<Rightarrow> char" where
  "hex_char d = ''0123456789abcdef'' ! d"

definition hex2 :: "8 word \<Rightarrow> string" where
  "hex2 b = [hex_char (unat b div 16), hex_char (unat b mod 16)]"

definition computeSHA1 :: "env \<Rightarrow> string \<Rightarrow> string" where
  "computeSHA1 E data = concat (map (\<lambda>i. hex2 (SHA1 E data i)) [0..<20])"

text \<open>\<^verbatim>\<open>compressData\<close>, lines 48-62.\<close>

definition compressData :: "env \<Rightarrow> world \<Rightarrow> string \<Rightarrow> string \<times> world" where
  "compressData E W data =
     (case compress E data of
        None \<Rightarrow> ([], emit W (Stderr (''Error: Compression failed'' @ [NL])))
      | Some compressed \<Rightarrow> (compressed, W))"

text \<open>\<^verbatim>\<open>getObjectPath\<close> and \<^verbatim>\<open>writeObject\<close>, lines 148-162. \<^verbatim>\<open>sha.substr(2)\<close> throws
  for a string of fewer than two characters.\<close>

definition getObjectPath :: "string \<Rightarrow> fault + string" where
  "getObjectPath digest =
     (if length digest < 2 then Inl OutOfRange
      else Inr (REPO_DIR @ [BSL] @ ''objects'' @ [BSL] @ substr digest 0 2 @ [BSL]
                  @ substr_from digest 2))"

definition writeObject :: "env \<Rightarrow> world \<Rightarrow> string \<Rightarrow> string \<Rightarrow> fault + world" where
  "writeObject E W digest content =
     (case getObjectPath digest of
        Inl f \<Rightarrow> Inl f
      | Inr p \<Rightarrow>
          (let (compressed, W1) = compressData E W content
           in if compressed \<noteq> [] then Inr (writeFile W1 p compressed) else Inr W1))"

text \<open>\<^verbatim>\<open>readIndex\<close>, lines 417-435.\<close>

definition readIndex :: "world \<Rightarrow> IndexEntry list" where
  "readIndex W = (case files W indexPath of None \<Rightarrow> [] | Some text \<Rightarrow> parseIndex text)"

text \<open>\<^verbatim>\<open>createTreeFromIndex\<close>, lines 496-515: the digest returned (empty for an empty
  index) and the world after the write.\<close>

definition createTreeFromIndex :: "env \<Rightarrow> world \<Rightarrow> fault + (string \<times> world)" where
  "createTreeFromIndex E W =
     (let index = readIndex W
      in if index = [] then Inr ([], W)
         else (let td = indexTreeData index;
                   digest = computeSHA1 E td
               in case writeObject E W digest td of
                    Inl f \<Rightarrow> Inl f
                  | Inr W1 \<Rightarrow> Inr (digest, W1)))"

text \<open>\<^verbatim>\<open>createCommit\<close>, lines 317-340, at time \<open>now\<close>.\<close>

definition createCommit ::
  "env \<Rightarrow> world \<Rightarrow> string \<Rightarrow> string \<Rightarrow> string \<Rightarrow> int \<Rightarrow> fault + (string \<times> world)" where
  "createCommit E W tsha psha msg now =
     (let cd = commitData tsha psha msg now;
          digest = computeSHA1 E cd
      in case writeObject E W digest cd of
           Inl f \<Rightarrow> Inl f
         | Inr W1 \<Rightarrow> Inr (digest, W1))"

text \<open>\<^verbatim>\<open>getHEAD\<close>, lines 520-541. \<^verbatim>\<open>sha.back()\<close> on the content of an empty ref file
  is undefined.\<close>

definition getHEAD :: "world \<Rightarrow> fault + (string \<times> world)" where
  "getHEAD W =
     (if \<not> fileExists W headPath then Inr ([], W)
      else (let (content, W1) = readFile W headPath
            in if substr content 0 5 = ''ref: '' then
                 (let refPath0 = REPO_DIR @ [BSL] @ substr_from content 5;
                      refPath = (if last refPath0 = NL then butlast refPath0 else refPath0)
                  in if fileExists W1 refPath then
                       (let (digest, W2) = readFile W1 refPath
                        in if digest = [] then Inl UndefinedBehaviour
                           else Inr (if last digest = NL then butlast digest else digest, W2))
                     else Inr ([], W1))
               else Inr ([], W1)))"

text \<open>\<^verbatim>\<open>updateHEAD\<close>, lines 544-556. \<^verbatim>\<open>refPath.back()\<close> is undefined when \<open>HEAD\<close> holds
  nothing after \<open>ref: \<close>.\<close>

definition updateHEAD :: "world \<Rightarrow> string \<Rightarrow> fault + world" where
  "updateHEAD W commitSha =
     (let (content, W1) = readFile W headPath
      in if substr content 0 5 = ''ref: '' then
           (let refPath0 = substr_from content 5
            in if refPath0 = [] then Inl UndefinedBehaviour
               else (let refPath = (if last refPath0 = NL then butlast refPath0 else refPath0)
                     in Inr (writeFile W1 (REPO_DIR @ [BSL] @ refPath) (commitSha @ [NL]))))
         else Inr W1)"

text \<open>\<^verbatim>\<open>updateLog\<close>, lines 559-572, at time \<open>now\<close>: the stream is opened for appending
  and never checked, so a log that cannot be opened is skipped silently.\<close>

definition logEntry :: "string \<Rightarrow> string \<Rightarrow> string \<Rightarrow> int \<Rightarrow> string" where
  "logEntry commitSha psha msg now =
     ''commit '' @ commitSha @ [NL] @
     (if psha \<noteq> [] then ''parent '' @ psha @ [NL] else []) @
     ''message '' @ msg @ [NL] @
     ''timestamp '' @ show_int now @ [NL] @
     ''---'' @ [NL]"

definition updateLog :: "world \<Rightarrow> string \<Rightarrow> string \<Rightarrow> string \<Rightarrow> int \<Rightarrow> world" where
  "updateLog W commitSha psha msg now =
     (if writable W logPath
      then W\<lparr>files := (files W)(logPath \<mapsto>
                 (case files W logPath of None \<Rightarrow> [] | Some old \<Rightarrow> old)
                 @ logEntry commitSha psha msg now),
             trace := trace W @ [FileAppend logPath (logEntry commitSha psha msg now)]\<rparr>
      else W)"

text \<open>\<^verbatim>\<open>cmdCommit\<close>, lines 740-759. \<open>t1\<close> and \<open>t2\<close> are the times read by
  \<^verbatim>\<open>createCommit\<close> and by \<^verbatim>\<open>updateLog\<close>.\<close>

definition cmdCommit :: "env \<Rightarrow> world \<Rightarrow> string \<Rightarrow> int \<Rightarrow> int \<Rightarrow> fault + world" where
  "cmdCommit E W msg t1 t2 =
     (case createTreeFromIndex E W of
        Inl f \<Rightarrow> Inl f
      | Inr (tsha, W1) \<Rightarrow>
          if tsha = [] then Inr (emit W1 (Stdout (''Nothing to commit'' @ [NL])))
          else (case getHEAD W1 of
                  Inl f \<Rightarrow> Inl f
                | Inr (psha, W2) \<Rightarrow>
                    (case createCommit E W2 tsha psha msg t1 of
                       Inl f \<Rightarrow> Inl f
                     | Inr (commitSha, W3) \<Rightarrow>
                         (case updateHEAD W3 commitSha of
                            Inl f \<Rightarrow> Inl f
                          | Inr W4 \<Rightarrow>
                              (let W5 = updateLog W4 commitSha psha msg t2;
                                   W6 = writeFile W5 indexPath []
                               in Inr (emit W6 (Stdout (commitSha @ [NL]))))))))"


text \<open>A concrete setting for examples: stand-ins for the two library functions (the
  properties below hold for every choice of them), the repository as \<^verbatim>\<open>cmdInit\<close>
  leaves it (lines 656-657) with every path writable, and the same repository after
  \<open>add hello.txt\<close> for an empty file.\<close>

definition exampleEnv :: env where
  "exampleEnv =
     \<lparr>SHA1 = (\<lambda>data i. of_nat (length data + i)),
      compress = (\<lambda>data. Some (CHR ''z'' # data))\<rparr>"

definition initWorld :: world where
  "initWorld =
     \<lparr>files = [headPath \<mapsto> ''ref: refs'' @ [BSL] @ ''heads'' @ [BSL] @ ''master'' @ [NL],
               indexPath \<mapsto> []],
      writable = (\<lambda>p. True),
      trace = []\<rparr>"


subsection \<open>Decompression\<close>

text \<open>
  \<^verbatim>\<open>decompressData\<close>, lines 65-92. \<^verbatim>\<open>uLongf\<close> is zlib's \<^verbatim>\<open>unsigned long\<close>, of \<open>'w\<close>
  bits (32 on Windows, which the program is written for; 64 elsewhere), so the size
  doubles modulo \<open>2 ^ 'w\<close>. zlib's \<^verbatim>\<open>uncompress\<close> is a parameter \<open>unc\<close>: from the size
  of the buffer and the source it gives the result code, the value it leaves in
  \<^verbatim>\<open>*destLen\<close>, and the buffer. \<open>alloc n\<close> says whether \<^verbatim>\<open>resize(n)\<close> can get \<open>n\<close>
  bytes; when it cannot, \<^verbatim>\<open>resize\<close> throws and nothing in the program catches it
  before the command ends. A loop that never ends is the value \<^term>\<open>None\<close>.
\<close>

definition Z_OK :: int where "Z_OK = 0"
definition Z_BUF_ERROR :: int where "Z_BUF_ERROR = - 5"
definition Z_DATA_ERROR :: int where "Z_DATA_ERROR = - 3"

type_synonym 'w uncompress = "'w word \<Rightarrow> string \<Rightarrow> int \<times> 'w word \<times> string"

definition resize :: "string \<Rightarrow> nat \<Rightarrow> string" where
  "resize s n = take n s @ replicate (n - length s) NUL"

partial_function (option) decompressLoop ::
  "(nat \<Rightarrow> bool) \<Rightarrow> ('w::len) uncompress \<Rightarrow> string \<Rightarrow> 'w word
     \<Rightarrow> (fault + string \<times> effect list) option" where
  "decompressLoop alloc unc compressed uncompressedSize =
     (if \<not> alloc (unat uncompressedSize) then Some (Inl AllocationFailure)
      else case unc uncompressedSize compressed of
        (result, newSize, buffer) \<Rightarrow>
          if result = Z_OK then Some (Inr (resize buffer (unat newSize), []))
          else if result = Z_BUF_ERROR then decompressLoop alloc unc compressed (newSize * 2)
          else Some (Inr ([], [Stderr (''Error: Decompression failed'' @ [NL])])))"

definition decompressData ::
  "(nat \<Rightarrow> bool) \<Rightarrow> ('w::len) uncompress \<Rightarrow> string \<Rightarrow> (fault + string \<times> effect list) option" where
  "decompressData alloc unc compressed =
     decompressLoop alloc unc compressed (of_nat (length compressed * 10))"

text \<open>For statements about the loop: the buffer size of attempt \<open>k\<close> when every
  earlier attempt asked for a retry, starting from size \<open>s\<close>; whether an attempt with a
  given size ends the loop (the buffer cannot be allocated, or the library reports
  anything but \<^verbatim>\<open>Z_BUF_ERROR\<close>); and what the function returns when it does.\<close>

fun attemptSize :: "('w::len) uncompress \<Rightarrow> string \<Rightarrow> 'w word \<Rightarrow> nat \<Rightarrow> 'w word" where
  "attemptSize unc compressed s 0 = s"
| "attemptSize unc compressed s (Suc k) =
     attemptSize unc compressed (fst (snd (unc s compressed)) * 2) k"

definition attemptStops :: "(nat \<Rightarrow> bool) \<Rightarrow> ('w::len) uncompress \<Rightarrow> string \<Rightarrow> 'w word \<Rightarrow> bool" where
  "attemptStops alloc unc compressed sz \<longleftrightarrow>
     \<not> alloc (unat sz) \<or> fst (unc sz compressed) \<noteq> Z_BUF_ERROR"

definition attemptOutcome ::
  "(nat \<Rightarrow> bool) \<Rightarrow> ('w::len) uncompress \<Rightarrow> string \<Rightarrow> 'w word \<Rightarrow> fault + string \<times> effect list" where
  "attemptOutcome alloc unc compressed sz =
     (if \<not> alloc (unat sz) then Inl AllocationFailure
      else case unc sz compressed of
        (result, newSize, buffer) \<Rightarrow>
          if result = Z_OK then Inr (resize buffer (unat newSize), [])
          else Inr ([], [Stderr (''Error: Decompression failed'' @ [NL])]))"

text \<open>What \<^verbatim>\<open>decompressData\<close> relies on in zlib's \<^verbatim>\<open>uncompress\<close> (as versions 1.2.9 and
  later behave): \<^verbatim>\<open>Z_BUF_ERROR\<close> is reported only for a buffer of non-zero size that
  was filled completely, with \<^verbatim>\<open>*destLen\<close> left at the size of the buffer. For a
  buffer of size 0 the library answers \<^verbatim>\<open>Z_OK\<close> (a stream of no bytes) or
  \<^verbatim>\<open>Z_DATA_ERROR\<close>.\<close>

definition zlibContract :: "('w::len) uncompress \<Rightarrow> bool" where
  "zlibContract unc \<longleftrightarrow>
     (\<forall>cap source. fst (unc cap source) = Z_BUF_ERROR \<longrightarrow>
        cap \<noteq> 0 \<and> fst (snd (unc cap source)) = cap)"

text \<open>The answers of such a library for a stream that holds \<open>n\<close> bytes (here \<open>n\<close>
  letters a): \<^verbatim>\<open>Z_OK\<close> and the \<open>n\<close> bytes when the buffer has room for them;
  otherwise \<^verbatim>\<open>Z_DATA_ERROR\<close> for a buffer of size 0, and \<^verbatim>\<open>Z_BUF_ERROR\<close> with a full
  buffer for any other size. Used for examples only.\<close>

definition inflating :: "nat \<Rightarrow> ('w::len) uncompress" where
  "inflating n cap source =
     (if n \<le> unat cap
        then (Z_OK, of_nat n, replicate n (CHR ''a'') @ replicate (unat cap - n) NUL)
      else if cap = 0 then (Z_DATA_ERROR, 0, [])
      else (Z_BUF_ERROR, cap, replicate (unat cap) (CHR ''a'')))"

subsection \<open>Checkout: clearing the working directory\<close>

text \<open>
  \<^verbatim>\<open>cmdCheckout\<close>, lines 791-809: the loop that clears the working directory once the
  commit has been resolved. The root directory is the list of its immediate children
  (name and content) in the order the directory iterator delivers them.
  \<^verbatim>\<open>fs::remove_all\<close> is a parameter: for a child it either removes it, or throws a
  \<^verbatim>\<open>filesystem_error\<close> with message \<open>what\<close> and leaves \<open>left\<close> under the child's name.
  The result is the children of the root after the loop and the warnings printed.
\<close>

datatype node = File string | Dir "(string \<times> node) list"

datatype removal = Removed | Failed string node

definition isProtected :: "string \<Rightarrow> bool" where
  "isProtected nm \<longleftrightarrow>
     nm = ''.'' \<or> nm = ''..'' \<or> nm = REPO_DIR \<or>
     nm = ''mygit.exe'' \<or> nm = ''main.cpp'' \<or> nm = ''makefile''"

definition removalWarning :: "string \<Rightarrow> string \<Rightarrow> effect" where
  "removalWarning nm what =
     Stderr (''Warning: Could not remove '' @ nm @ '' during checkout: '' @ what @ [NL])"

fun cmdCheckout_clear ::
  "(string \<Rightarrow> node \<Rightarrow> removal) \<Rightarrow> (string \<times> node) list \<Rightarrow> (string \<times> node) list \<times> effect list" where
  "cmdCheckout_clear remove_all [] = ([], [])"
| "cmdCheckout_clear remove_all ((nm, nd) # rest) =
     (let (kept, warnings) = cmdCheckout_clear remove_all rest
      in if isProtected nm then ((nm, nd) # kept, warnings)
         else (case remove_all nm nd of
                 Removed \<Rightarrow> (kept, warnings)
               | Failed what left \<Rightarrow> ((nm, left) # kept, removalWarning nm what # warnings)))"

text \<open>A working directory for examples, and a \<^verbatim>\<open>remove_all\<close> that fails on one
  file.\<close>

definition exampleListing :: "(string \<times> node) list" where
  "exampleListing =
     [(''.mygit'', Dir []),
      (''main.cpp'', File ''int main() {}''),
      (''hello.txt'', File ''hi''),
      (''locked.txt'', File ''x''),
      (''sub'', Dir [(''a'', File ''A'')])]"

definition exampleRemoveAll :: "string \<Rightarrow> node \<Rightarrow> removal" where
  "exampleRemoveAll nm nd = (if nm = ''locked.txt'' then Failed ''Access is denied'' nd else Removed)"

section \<open>Properties\<close>

subsection \<open>String primitives\<close>

lemma find_first_append_notin:
  "c \<notin> set pre \<Longrightarrow> find_first c (pre @ c # rest) = Some (length pre)"
  by (induction pre) auto

lemma find_first_None_iff: "find_first c s = None \<longleftrightarrow> c \<notin> set s"
  by (induction s) (auto split: option.splits)

lemma digit_char_in: "d < 10 \<Longrightarrow> digit_char d \<in> set ''0123456789''"
  unfolding digit_char_def by (rule nth_mem) simp

lemma to_string_digits: "set (to_string n) \<subseteq> set ''0123456789''"
proof (induction n rule: to_string.induct)
  case (1 n)
  show ?case
  proof (cases "n < 10")
    case True
    then show ?thesis
      using digit_char_in [of n] by (subst to_string.simps) simp
  next
    case False
    have "n mod 10 < 10" by simp
    then have "digit_char (n mod 10) \<in> set ''0123456789''" by (rule digit_char_in)
    with False "1.IH" show ?thesis
      by (subst to_string.simps) simp
  qed
qed

lemma NUL_notin_to_string: "NUL \<notin> set (to_string n)"
  using to_string_digits [of n] by auto

lemma NL_notin_to_string: "NL \<notin> set (to_string n)"
  using to_string_digits [of n] by auto

subsection \<open>C1: blob round trip\<close>

text \<open>
  C1. For every file content \<open>c\<close>, the blob serialization is \<open>"blob "\<close>, the decimal
  length of \<open>c\<close>, a null byte and \<open>c\<close>; and taking what follows the first null byte of
  that serialization, as \<^verbatim>\<open>restoreTree\<close> does, gives back exactly \<open>c\<close>.
\<close>

theorem blob_round_trip:
  "blobData c = ''blob '' @ to_string (length c) @ [NUL] @ c \<and>
   decode_blob (blobData c) = Some c"
proof -
  have notin: "NUL \<notin> set (''blob '' @ to_string (length c))"
    using NUL_notin_to_string [of "length c"] by simp
  have split: "blobData c = (''blob '' @ to_string (length c)) @ NUL # c"
    by (simp add: blobData_def)
  have pos: "find_first NUL (blobData c) = Some (length (''blob '' @ to_string (length c)))"
    unfolding split using notin by (rule find_first_append_notin)
  have ne: "blobData c \<noteq> []"
    by (simp add: blobData_def)
  have "decode_blob (blobData c) = Some (drop (length (''blob '' @ to_string (length c)) + 1) (blobData c))"
    using ne pos by (simp add: decode_blob_def substr_from_def)
  also have "drop (length (''blob '' @ to_string (length c)) + 1) (blobData c) = c"
    unfolding split by simp
  finally show ?thesis
    by (simp add: blobData_def)
qed

theorem blob_round_trip_witness:
  "blobData ''hi'' = ''blob '' @ to_string (length ''hi'') @ [NUL] @ ''hi'' \<and>
   decode_blob (blobData ''hi'') = Some ''hi''"
  by (rule blob_round_trip)

subsection \<open>Tree bodies read back by \<^verbatim>\<open>parseTree\<close>\<close>

lemma foldl_append_concat:
  "foldl (\<lambda>out e. out @ f e) a es = a @ concat (map f es)"
  by (induction es arbitrary: a) auto

lemma treeContent_concat: "treeContent es = concat (map entry_bytes es)"
  unfolding treeContent_def entry_bytes_def by (simp add: foldl_append_concat)

lemma find_first_takeWhile:
  "find_first c s = (if c \<in> set s then Some (length (takeWhile (\<lambda>x. x \<noteq> c) s)) else None)"
  by (induction s) auto

lemma find_from_drop:
  "find_from c (length pre) (pre @ s) = (case find_first c s of None \<Rightarrow> None | Some i \<Rightarrow> Some (length pre + i))"
  by (simp add: find_from_def)

lemma parseTree_loop_entry:
  assumes wf: "wf_entry e"
  shows "parseTree_loop (pre @ entry_bytes e @ rest) (length pre) acc =
         parseTree_loop (pre @ entry_bytes e @ rest) (length pre + length (entry_bytes e)) (acc @ [parsed e])"
proof -
  let ?td = "pre @ entry_bytes e @ rest"
  from wf have m: "SPC \<notin> set (mode e)" and n: "NUL \<notin> set (name e)" and d: "length (sha e) = 40"
    by (simp_all add: wf_entry_def)
  have lt: "length pre < length ?td" by (simp add: entry_bytes_def)
  have sp: "find_from SPC (length pre) ?td = Some (length pre + length (mode e))"
    using find_first_append_notin [OF m, of "name e @ [NUL] @ sha e @ rest"]
    by (simp add: find_from_drop entry_bytes_def)
  have td2: "?td = (pre @ mode e @ [SPC]) @ (name e @ NUL # sha e @ rest)"
    by (simp add: entry_bytes_def)
  have nu: "find_from NUL (length pre + length (mode e) + 1) ?td = Some (length pre + length (mode e) + 1 + length (name e))"
    using find_first_append_notin [OF n, of "sha e @ rest"] find_from_drop [of NUL "pre @ mode e @ [SPC]" "name e @ NUL # sha e @ rest"]
    unfolding td2 [symmetric] by simp
  have fits: "\<not> length pre + length (mode e) + 1 + length (name e) + 1 + 40 > length ?td"
    using d by (simp add: entry_bytes_def)
  have mode_eq: "substr ?td (length pre) (length pre + length (mode e) - length pre) = mode e"
    by (simp add: substr_def entry_bytes_def)
  have name_eq: "substr ?td (length pre + length (mode e) + 1)
                   (length pre + length (mode e) + 1 + length (name e) - (length pre + length (mode e) + 1)) = name e"
    by (simp add: substr_def entry_bytes_def)
  have sha_eq: "substr ?td (length pre + length (mode e) + 1 + length (name e) + 1) 40 = sha e"
    using d by (simp add: substr_def entry_bytes_def)
  have len: "length pre + length (mode e) + 1 + length (name e) + 1 + 40 = length pre + length (entry_bytes e)"
    using d by (simp add: entry_bytes_def)
  show ?thesis
    apply (subst parseTree_loop.simps)
    apply (simp only: lt if_True sp option.case nu fits if_False mode_eq name_eq sha_eq len)
    apply (simp add: parsed_def)
    done
qed


lemma dropWhile_neq_Cons:
  "c \<in> set s \<Longrightarrow> dropWhile (\<lambda>x. x \<noteq> c) s = c # tl (dropWhile (\<lambda>x. x \<noteq> c) s)"
  by (induction s) auto

lemma parseTree_loop_tail:
  assumes "t = [] \<or> truncated_record t"
  shows "parseTree_loop (pre @ t) (length pre) acc = acc"
proof (cases "t = []")
  case True
  then show ?thesis by (subst parseTree_loop.simps) simp
next
  case False
  with assms have tr: "truncated_record t" by simp
  have lt: "length pre < length (pre @ t)" using False by simp
  show ?thesis
  proof (cases "SPC \<in> set t")
    case noSpace: False
    then have "find_from SPC (length pre) (pre @ t) = None"
      by (simp add: find_from_drop find_first_takeWhile)
    then show ?thesis using lt by (subst parseTree_loop.simps) simp
  next
    case hasSpace: True
    define m where "m = takeWhile (\<lambda>c. c \<noteq> SPC) t"
    define r where "r = tl (dropWhile (\<lambda>c. c \<noteq> SPC) t)"
    have dw: "dropWhile (\<lambda>c. c \<noteq> SPC) t = SPC # r"
      using hasSpace unfolding r_def by (rule dropWhile_neq_Cons)
    have t_eq: "t = m @ SPC # r"
      unfolding m_def dw [symmetric] by simp
    have sp: "find_from SPC (length pre) (pre @ t) = Some (length pre + length m)"
      using hasSpace by (simp add: find_from_drop find_first_takeWhile m_def)
    have td2: "pre @ t = (pre @ m @ [SPC]) @ r" by (simp add: t_eq)
    have nu: "find_from NUL (Suc (length pre + length m)) (pre @ t) = 
              (case find_first NUL r of None \<Rightarrow> None | Some i \<Rightarrow> Some (Suc (length pre + length m + i)))"
      using find_from_drop [of NUL "pre @ m @ [SPC]" r] unfolding td2 [symmetric]
      by (simp split: option.splits)
    show ?thesis
    proof (cases "NUL \<in> set r")
      case False
      then have "find_from NUL (Suc (length pre + length m)) (pre @ t) = None"
        by (simp add: nu find_first_takeWhile)
      then show ?thesis using lt sp by (subst parseTree_loop.simps) simp
    next
      case True
      define n where "n = takeWhile (\<lambda>c. c \<noteq> NUL) r"
      define d where "d = tl (dropWhile (\<lambda>c. c \<noteq> NUL) r)"
      have dw2: "dropWhile (\<lambda>c. c \<noteq> NUL) r = NUL # d"
        using True unfolding d_def by (rule dropWhile_neq_Cons)
      have r_eq: "r = n @ NUL # d"
        unfolding n_def dw2 [symmetric] by simp
      have nu': "find_from NUL (Suc (length pre + length m)) (pre @ t) = Some (Suc (length pre + length m + length n))"
        using True by (simp add: nu find_first_takeWhile n_def)
      from tr have "length d < 40"
        unfolding truncated_record_def Let_def dw using dw2 by (simp add: r_def [symmetric])
      then have "Suc (length pre + length m + length n) + 1 + 40 > length (pre @ t)"
        by (simp add: t_eq r_eq)
      then show ?thesis using lt sp nu' by (subst parseTree_loop.simps) simp
    qed
  qed
qed

lemma parseTree_loop_body:
  assumes "\<forall>e \<in> set es. wf_entry e" and "t = [] \<or> truncated_record t"
  shows "parseTree_loop (pre @ concat (map entry_bytes es) @ t) (length pre) acc = acc @ map parsed es"
  using assms(1)
proof (induction es arbitrary: pre acc)
  case Nil
  then show ?case using parseTree_loop_tail [OF assms(2)] by simp
next
  case (Cons e es)
  then have wf: "wf_entry e" and wfs: "\<forall>e \<in> set es. wf_entry e" by simp_all
  have "parseTree_loop (pre @ concat (map entry_bytes (e # es)) @ t) (length pre) acc =
        parseTree_loop (pre @ entry_bytes e @ (concat (map entry_bytes es) @ t)) (length pre) acc"
    by simp
  also have "\<dots> = parseTree_loop (pre @ entry_bytes e @ (concat (map entry_bytes es) @ t))
                      (length pre + length (entry_bytes e)) (acc @ [parsed e])"
    by (rule parseTree_loop_entry [OF wf])
  also have "\<dots> = parseTree_loop ((pre @ entry_bytes e) @ concat (map entry_bytes es) @ t)
                      (length (pre @ entry_bytes e)) (acc @ [parsed e])"
    by simp
  also have "\<dots> = (acc @ [parsed e]) @ map parsed es"
    by (rule Cons.IH [OF wfs])
  finally show ?case by simp
qed

lemma parseTree_header:
  assumes "NUL \<notin> set h" "\<forall>e \<in> set es. wf_entry e" "t = [] \<or> truncated_record t"
  shows "parseTree (h @ [NUL] @ treeContent es @ t) = map parsed es"
proof -
  let ?td = "h @ NUL # concat (map entry_bytes es) @ t"
  have pos: "find_first NUL ?td = Some (length h)"
    using assms(1) by (rule find_first_append_notin)
  have ne: "?td \<noteq> []" by simp
  have "parseTree ?td = parseTree_loop ?td (length h + 1) []"
    unfolding parseTree_def using ne pos by simp
  also have "\<dots> = parseTree_loop ((h @ [NUL]) @ concat (map entry_bytes es) @ t) (length (h @ [NUL])) []"
    by simp
  also have "\<dots> = [] @ map parsed es"
    by (rule parseTree_loop_body [OF assms(2,3)])
  finally show ?thesis by (simp add: treeContent_concat)
qed


lemma indexTreeContent_treeContent: "indexTreeContent idx = treeContent (map index_entry idx)"
  by (simp add: indexTreeContent_def treeContent_def index_entry_def foldl_append_concat comp_def)

lemma indexTreeData_treeData: "indexTreeData idx = treeData (map index_entry idx)"
  by (simp add: indexTreeData_def treeData_def indexTreeContent_treeContent)

lemma parsed_index_entry: "parsed (index_entry e) = index_entry e"
  by (simp add: parsed_def index_entry_def)

lemma parseTree_treeData:
  assumes "\<forall>e \<in> set es. wf_entry e"
  shows "parseTree (treeData es) = map parsed es"
proof -
  have h: "NUL \<notin> set (''tree '' @ to_string (length (treeContent es)))"
    using NUL_notin_to_string [of "length (treeContent es)"] by simp
  have "parseTree ((''tree '' @ to_string (length (treeContent es))) @ [NUL] @ treeContent es @ []) = map parsed es"
    using h assms by (rule parseTree_header) simp
  then show ?thesis by (simp add: treeData_def)
qed

subsection \<open>C6: a tree body with a partial trailing record\<close>

text \<open>
  C6 (as amended). \<^verbatim>\<open>parseTree\<close> has no failure result: each of its three \<^verbatim>\<open>break\<close>s
  leaves the loop with the entries collected so far. For every serialized tree (a header
  without a null byte, a null byte, the records of entries \<open>es\<close>) followed by a partial
  trailing record \<open>t\<close>, \<^verbatim>\<open>parseTree\<close> returns the entries of the complete records, in
  order, and drops the partial one silently.
\<close>

theorem parseTree_truncated_returns_prefix:
  assumes "NUL \<notin> set h" and "\<forall>e \<in> set es. wf_entry e" and "truncated_record t"
  shows "parseTree (h @ [NUL] @ treeContent es @ t) = map parsed es"
  using assms(1,2) by (rule parseTree_header) (simp add: assms(3))

text \<open>The theorem at a tree of one complete record followed by the truncated record
  \<open>100644 b\<close>.\<close>

theorem parseTree_truncated_returns_prefix_witness:
  "parseTree (''tree 57'' @ [NUL] @
      treeContent [\<lparr>mode = ''100644'', name = ''a'',
                     sha = ''da39a3ee5e6b4b0d3255bfef95601890afd80709'', isTree = False\<rparr>]
      @ ''100644 b'')
   = map parsed [\<lparr>mode = ''100644'', name = ''a'',
                   sha = ''da39a3ee5e6b4b0d3255bfef95601890afd80709'', isTree = False\<rparr>]"
  by (rule parseTree_truncated_returns_prefix) (simp_all add: wf_entry_def truncated_record_def)

text \<open>
  C6 as stated fails: on the body of one complete record followed by the partial record
  \<open>100644 b\<close> the decoder reports nothing and returns the parsed prefix.
\<close>

theorem parseTree_truncated_counterexample:
  "truncated_record ''100644 b'' \<and>
   parseTree (''tree 57'' @ [NUL] @ ''100644 a'' @ [NUL] @ ''da39a3ee5e6b4b0d3255bfef95601890afd80709''
              @ ''100644 b'')
   = [\<lparr>mode = ''100644'', name = ''a'', sha = ''da39a3ee5e6b4b0d3255bfef95601890afd80709'',
       isTree = False\<rparr>]"
proof -
  let ?e = "\<lparr>mode = ''100644'', name = ''a'', sha = ''da39a3ee5e6b4b0d3255bfef95601890afd80709'', isTree = False\<rparr>"
  have t: "truncated_record ''100644 b''" by (simp add: truncated_record_def)
  have "parseTree (''tree 57'' @ [NUL] @ treeContent [?e] @ ''100644 b'') = map parsed [?e]"
    by (rule parseTree_header) (simp_all add: wf_entry_def t)
  then show ?thesis using t by (simp add: treeContent_def parsed_def)
qed

subsection \<open>C7: duplicate names in a tree\<close>

lemma parseTree_indexTreeData:
  assumes "\<forall>e \<in> set idx. wf_entry (index_entry e)"
  shows "parseTree (indexTreeData idx) = map index_entry idx"
proof -
  have "parseTree (treeData (map index_entry idx)) = map parsed (map index_entry idx)"
    by (rule parseTree_treeData) (use assms in simp)
  then show ?thesis
    by (simp add: indexTreeData_treeData parsed_index_entry comp_def)
qed




subsection \<open>C2: the tree built from the index\<close>

lemma distinct_map_insort_key:
  "distinct (map f (insort_key f x xs)) \<longleftrightarrow> f x \<notin> f ` set xs \<and> distinct (map f xs)"
  by (induction xs) (auto simp: set_insort_key)

lemma distinct_map_sort_key: "distinct (map f (sort_key f xs)) \<longleftrightarrow> distinct (map f xs)"
  by (induction xs) (auto simp: distinct_map_insort_key)

lemma listDirectory_sort_increasing:
  "distinct (map name es) \<Longrightarrow> sorted_wrt (<) (map name (listDirectory_sort es))"
  unfolding listDirectory_sort_def strict_sorted_iff
  by (simp add: distinct_map_sort_key)

text \<open>
  C2 at a failing input. The index file written by \<open>add b\<close> followed by \<open>add a\<close>
  lists \<open>b\<close> before \<open>a\<close>; \<^verbatim>\<open>createTreeFromIndex\<close> streams the entries in that order,
  so the names of the tree read \<open>b\<close>, \<open>a\<close>: not increasing. The sort that
  \<^verbatim>\<open>listDirectory\<close> applies on the other path to a tree would have put \<open>a\<close> first.
\<close>

theorem index_tree_not_sorted:
  "parseIndex (''100644 356a192b7913b04c54574d18c28d46e6395428ab b'' @ [NL] @
               ''100644 da39a3ee5e6b4b0d3255bfef95601890afd80709 a'' @ [NL])
   = [\<lparr>path = ''b'', sha = ''356a192b7913b04c54574d18c28d46e6395428ab'', mode = ''100644''\<rparr>,
      \<lparr>path = ''a'', sha = ''da39a3ee5e6b4b0d3255bfef95601890afd80709'', mode = ''100644''\<rparr>] \<and>
   map name (parseTree (indexTreeData
     [\<lparr>path = ''b'', sha = ''356a192b7913b04c54574d18c28d46e6395428ab'', mode = ''100644''\<rparr>,
      \<lparr>path = ''a'', sha = ''da39a3ee5e6b4b0d3255bfef95601890afd80709'', mode = ''100644''\<rparr>]))
   = [''b'', ''a''] \<and>
   \<not> sorted_wrt (<) [''b'', ''a''] \<and>
   map name (listDirectory_sort (map index_entry
     [\<lparr>path = ''b'', sha = ''356a192b7913b04c54574d18c28d46e6395428ab'', mode = ''100644''\<rparr>,
      \<lparr>path = ''a'', sha = ''da39a3ee5e6b4b0d3255bfef95601890afd80709'', mode = ''100644''\<rparr>]))
   = [''a'', ''b'']"
proof -
  let ?idx = "[\<lparr>path = ''b'', sha = ''356a192b7913b04c54574d18c28d46e6395428ab'', mode = ''100644''\<rparr>,
      \<lparr>path = ''a'', sha = ''da39a3ee5e6b4b0d3255bfef95601890afd80709'', mode = ''100644''\<rparr>]"
  have 1: "parseIndex (''100644 356a192b7913b04c54574d18c28d46e6395428ab b'' @ [NL] @
               ''100644 da39a3ee5e6b4b0d3255bfef95601890afd80709 a'' @ [NL]) = ?idx"
    by (simp add: parseIndex_def getlines_def parseIndexLine_def extract_word_def is_space_def)
  have "parseTree (indexTreeData ?idx) = map index_entry ?idx"
    by (rule parseTree_indexTreeData) (simp add: wf_entry_def index_entry_def getFilename_def)
  then have 2: "map name (parseTree (indexTreeData ?idx)) = [''b'', ''a'']"
    by (simp add: index_entry_def getFilename_def)
  have 3: "\<not> sorted_wrt (<) [''b'', ''a'']"
    by simp
  have 4: "map name (listDirectory_sort (map index_entry ?idx)) = [''a'', ''b'']"
    by (simp add: listDirectory_sort_def index_entry_def getFilename_def)
  from 1 2 3 4 show ?thesis by blast
qed


subsection \<open>Commit text, line by line\<close>

lemma getlines_from_line:
  "NL \<notin> set l \<Longrightarrow> getlines_from cur (l @ NL # rest) = (cur @ l) # getlines_from [] rest"
  by (induction l arbitrary: cur) auto

lemma getlines_line: "NL \<notin> set l \<Longrightarrow> getlines (l @ NL # rest) = l # getlines rest"
  by (simp add: getlines_def getlines_from_line)

lemma NL_notin_show_int: "NL \<notin> set (show_int i)"
  using NL_notin_to_string by (simp add: show_int_def)

lemma SPC_notin_show_int: "SPC \<notin> set (show_int i)"
  using to_string_digits [of "nat i"] to_string_digits [of "nat (- i)"]
  by (auto simp: show_int_def)

lemma find_last_of_None: "set cs \<inter> set s = {} \<Longrightarrow> find_last_of cs s = None"
  by (induction s) auto

lemma find_last_of_last:
  "c \<notin> set suf \<Longrightarrow> find_last_of [c] (pre @ c # suf) = Some (length pre)"
  by (induction pre) (auto simp: find_last_of_None)

lemma getlines_commitContent:
  assumes "NL \<notin> set tsha" and "NL \<notin> set psha"
  shows "getlines (commitContent tsha psha msg now) =
         (''tree '' @ tsha) # (if hasParent psha then [''parent '' @ psha] else []) @
         [authorLine now, committerLine now, []] @ getlines (msg @ [NL])"
proof -
  have t: "NL \<notin> set (''tree '' @ tsha)" using assms(1) by simp
  have p: "NL \<notin> set (''parent '' @ psha)" using assms(2) by simp
  have a: "NL \<notin> set (authorLine now)" using NL_notin_show_int by (simp add: authorLine_def)
  have c: "NL \<notin> set (committerLine now)" using NL_notin_show_int by (simp add: committerLine_def)
  have tail: "getlines (authorLine now @ NL # committerLine now @ NL # NL # msg @ [NL]) =
              [authorLine now, committerLine now, []] @ getlines (msg @ [NL])"
    using getlines_line [OF a] getlines_line [OF c] getlines_line [of "[]"] by simp
  show ?thesis
  proof (cases "hasParent psha")
    case True
    then have "commitContent tsha psha msg now =
      (''tree '' @ tsha) @ NL # (''parent '' @ psha) @ NL # (authorLine now @ NL # committerLine now @ NL # NL # msg @ [NL])"
      by (simp add: commitContent_def hasParent_def authorLine_def committerLine_def)
    then show ?thesis
      using True getlines_line [OF t] getlines_line [OF p] tail by simp
  next
    case False
    then have "commitContent tsha psha msg now =
      (''tree '' @ tsha) @ NL # (authorLine now @ NL # committerLine now @ NL # NL # msg @ [NL])"
      by (auto simp add: commitContent_def hasParent_def authorLine_def committerLine_def)
    then show ?thesis
      using False getlines_line [OF t] tail by simp
  qed
qed

lemma headerLine_tree: "headerLine info (''tree '' @ t) = info\<lparr>treeSha := t\<rparr>"
  by (simp add: headerLine_def substr_def substr_from_def)

lemma headerLine_parent: "headerLine info (''parent '' @ p) = info\<lparr>parentSha := p\<rparr>"
  by (simp add: headerLine_def substr_def substr_from_def)

lemma headerLine_author: "headerLine info (authorLine now) = info\<lparr>author := drop 7 (authorLine now)\<rparr>"
  by (simp add: headerLine_def substr_def substr_from_def authorLine_def)

lemma headerLine_committer_gen:
  assumes "SPC \<notin> set suf"
  shows "headerLine info (''committer '' @ pre @ SPC # suf) =
           info\<lparr>committer := pre @ SPC # suf, timestamp := suf\<rparr>"
  using find_last_of_last [OF assms, of pre]
  by (simp add: headerLine_def substr_def substr_from_def)

lemma headerLine_committer:
  "headerLine info (committerLine now) =
     info\<lparr>committer := ''User <user@example.com> '' @ show_int now @ '' +0000'', timestamp := ''+0000''\<rparr>"
proof -
  have "headerLine info (''committer '' @ (''User <user@example.com> '' @ show_int now) @ SPC # ''+0000'') =
        info\<lparr>committer := (''User <user@example.com> '' @ show_int now) @ SPC # ''+0000'', timestamp := ''+0000''\<rparr>"
    by (rule headerLine_committer_gen) simp
  then show ?thesis by (simp add: committerLine_def)
qed

lemma parseHeaders_step:
  "line \<noteq> [] \<Longrightarrow> parseHeaders info (line # rest) = parseHeaders (headerLine info line) rest"
  by simp

lemma parseHeaders_author_committer:
  "parseHeaders info ([authorLine now, committerLine now, []] @ rest) =
   (info\<lparr>author := drop 7 (authorLine now),
          committer := ''User <user@example.com> '' @ show_int now @ '' +0000'',
          timestamp := ''+0000''\<rparr>, rest)"
proof -
  have a: "authorLine now \<noteq> []" and c: "committerLine now \<noteq> []"
    by (simp_all add: authorLine_def committerLine_def)
  have "parseHeaders info ([authorLine now, committerLine now, []] @ rest) =
        parseHeaders info (authorLine now # committerLine now # [] # rest)"
    by simp
  also have "\<dots> = parseHeaders (headerLine info (authorLine now)) (committerLine now # [] # rest)"
    using a by (rule parseHeaders_step)
  also have "\<dots> = parseHeaders (headerLine (headerLine info (authorLine now)) (committerLine now)) ([] # rest)"
    using c by (rule parseHeaders_step)
  also have "\<dots> = (headerLine (headerLine info (authorLine now)) (committerLine now), rest)"
    by simp
  finally show ?thesis
    by (simp add: headerLine_author headerLine_committer)
qed

lemma parseHeaders_commit:
  "parseHeaders emptyCommitInfo
     ((''tree '' @ t) # (if hasParent p then [''parent '' @ p] else []) @
      [authorLine now, committerLine now, []] @ rest) =
   (\<lparr>treeSha = t, parentSha = (if hasParent p then p else []),
     author = drop 7 (authorLine now),
     committer = ''User <user@example.com> '' @ show_int now @ '' +0000'',
     message = [], timestamp = ''+0000''\<rparr>, rest)"
proof -
  have tl: "''tree '' @ t \<noteq> []" and pl: "''parent '' @ p \<noteq> []"
    by simp_all
  let ?tail = "[authorLine now, committerLine now, []] @ rest"
  show ?thesis
  proof (cases "hasParent p")
    case True
    have lines: "(''tree '' @ t) # (if hasParent p then [''parent '' @ p] else []) @ ?tail =
                 (''tree '' @ t) # (''parent '' @ p) # ?tail"
      using True by (simp only: if_True append.simps)
    have "parseHeaders emptyCommitInfo ((''tree '' @ t) # (''parent '' @ p) # ?tail) =
          parseHeaders (headerLine emptyCommitInfo (''tree '' @ t)) ((''parent '' @ p) # ?tail)"
      using tl by (rule parseHeaders_step)
    also have "\<dots> = parseHeaders (headerLine (headerLine emptyCommitInfo (''tree '' @ t)) (''parent '' @ p)) ?tail"
      using pl by (rule parseHeaders_step)
    also have "\<dots> = (\<lparr>treeSha = t, parentSha = p,
         author = drop 7 (authorLine now),
         committer = ''User <user@example.com> '' @ show_int now @ '' +0000'',
         message = [], timestamp = ''+0000''\<rparr>, rest)"
      unfolding parseHeaders_author_committer headerLine_tree headerLine_parent
      by (simp add: emptyCommitInfo_def)
    finally show ?thesis unfolding lines using True by simp
  next
    case False
    have lines: "(''tree '' @ t) # (if hasParent p then [''parent '' @ p] else []) @ ?tail =
                 (''tree '' @ t) # ?tail"
      using False by (simp only: if_False append.simps)
    have "parseHeaders emptyCommitInfo ((''tree '' @ t) # ?tail) =
          parseHeaders (headerLine emptyCommitInfo (''tree '' @ t)) ?tail"
      using tl by (rule parseHeaders_step)
    also have "\<dots> = (\<lparr>treeSha = t, parentSha = [],
         author = drop 7 (authorLine now),
         committer = ''User <user@example.com> '' @ show_int now @ '' +0000'',
         message = [], timestamp = ''+0000''\<rparr>, rest)"
      unfolding parseHeaders_author_committer headerLine_tree
      by (simp add: emptyCommitInfo_def)
    finally show ?thesis unfolding lines using False by simp
  qed
qed

lemma parseCommit_commitData:
  assumes "NL \<notin> set t" and "NL \<notin> set p"
  shows "parseCommit (commitData t p m now) =
   \<lparr>treeSha = t, parentSha = (if hasParent p then p else []),
     author = drop 7 (authorLine now),
     committer = ''User <user@example.com> '' @ show_int now @ '' +0000'',
     message = foldl (\<lambda>m line. m @ line @ [NL]) [] (getlines (m @ [NL])), timestamp = ''+0000''\<rparr>"
proof -
  let ?cc = "commitContent t p m now"
  have h: "NUL \<notin> set (''commit '' @ to_string (length ?cc))"
    using NUL_notin_to_string [of "length ?cc"] by simp
  have split: "commitData t p m now = (''commit '' @ to_string (length ?cc)) @ NUL # ?cc"
    by (simp add: commitData_def)
  have pos: "find_first NUL (commitData t p m now) = Some (length (''commit '' @ to_string (length ?cc)))"
    unfolding split using h by (rule find_first_append_notin)
  have ne: "commitData t p m now \<noteq> []" by (simp add: commitData_def)
  have content: "substr_from (commitData t p m now) (length (''commit '' @ to_string (length ?cc)) + 1) = ?cc"
    unfolding split substr_from_def by simp
  show ?thesis
    unfolding parseCommit_def
    using ne
    by (simp only: if_False pos option.case content getlines_commitContent [OF assms]
          parseHeaders_commit Let_def prod.case) simp
qed


lemma headerLines_commitContent:
  assumes "NL \<notin> set t" and "NL \<notin> set p"
  shows "headerLines (commitContent t p m now) =
         (''tree '' @ t) # (if hasParent p then [''parent '' @ p] else []) @
         [authorLine now, committerLine now]"
proof -
  have a: "authorLine now \<noteq> []" and c: "committerLine now \<noteq> []"
    by (simp_all add: authorLine_def committerLine_def)
  show ?thesis
    unfolding headerLines_def getlines_commitContent [OF assms]
    using a c by simp
qed

lemma isParentLine_simps:
  "\<not> isParentLine (''tree '' @ t)" "isParentLine (''parent '' @ p)"
  "\<not> isParentLine (authorLine now)" "\<not> isParentLine (committerLine now)"
  by (simp_all add: isParentLine_def substr_def authorLine_def committerLine_def)

subsection \<open>C4: the parent line\<close>

text \<open>
  C4. For a tree digest and a parent digest (strings without a newline), the header
  lines of the commit payload, those before the first empty line, hold a line starting
  with \<open>parent\<close> and a space if and only if the parent digest is non-empty and is not the
  all-zero digest; that line is then \<open>parent\<close>, a space and the digest, placed right
  after the tree line, and \<^verbatim>\<open>parseCommit\<close> reads the same parent back (none otherwise).
\<close>

theorem parent_line_iff:
  assumes "NL \<notin> set t" and "NL \<notin> set p"
  shows "((\<exists>line \<in> set (headerLines (commitContent t p m now)). isParentLine line) \<longleftrightarrow>
            p \<noteq> [] \<and> p \<noteq> ''0000000000000000000000000000000000000000'') \<and>
         headerLines (commitContent t p m now) =
            (''tree '' @ t) #
            (if p \<noteq> [] \<and> p \<noteq> ''0000000000000000000000000000000000000000''
             then [''parent '' @ p] else []) @
            [authorLine now, committerLine now] \<and>
         parentSha (parseCommit (commitData t p m now)) =
            (if p \<noteq> [] \<and> p \<noteq> ''0000000000000000000000000000000000000000'' then p else [])"
proof -
  have hl: "headerLines (commitContent t p m now) =
         (''tree '' @ t) # (if hasParent p then [''parent '' @ p] else []) @
         [authorLine now, committerLine now]"
    using assms by (rule headerLines_commitContent)
  have 1: "(\<exists>line \<in> set (headerLines (commitContent t p m now)). isParentLine line) \<longleftrightarrow> hasParent p"
    unfolding hl using isParentLine_simps by (cases "hasParent p") simp_all
  have 3: "parentSha (parseCommit (commitData t p m now)) = (if hasParent p then p else [])"
    unfolding parseCommit_commitData [OF assms] by simp
  from 1 hl 3 show ?thesis
    unfolding hasParent_def by blast
qed

text \<open>The theorem at a root commit, at an all-zero parent and at a real parent.\<close>

theorem parent_line_iff_witness:
  "\<not> (\<exists>line \<in> set (headerLines (commitContent ''da39a3ee5e6b4b0d3255bfef95601890afd80709'' [] ''first'' 1700000000)).
        isParentLine line) \<and>
   \<not> (\<exists>line \<in> set (headerLines (commitContent ''da39a3ee5e6b4b0d3255bfef95601890afd80709''
          ''0000000000000000000000000000000000000000'' ''first'' 1700000000)).
        isParentLine line) \<and>
   (\<exists>line \<in> set (headerLines (commitContent ''da39a3ee5e6b4b0d3255bfef95601890afd80709''
          ''356a192b7913b04c54574d18c28d46e6395428ab'' ''second'' 1700000000)).
        isParentLine line)"
proof (intro conjI)
  show "\<not> (\<exists>line \<in> set (headerLines (commitContent ''da39a3ee5e6b4b0d3255bfef95601890afd80709'' [] ''first'' 1700000000)).
        isParentLine line)"
    by (subst parent_line_iff [THEN conjunct1]) simp_all
  show "\<not> (\<exists>line \<in> set (headerLines (commitContent ''da39a3ee5e6b4b0d3255bfef95601890afd80709''
          ''0000000000000000000000000000000000000000'' ''first'' 1700000000)).
        isParentLine line)"
    by (subst parent_line_iff [THEN conjunct1]) simp_all
  show "\<exists>line \<in> set (headerLines (commitContent ''da39a3ee5e6b4b0d3255bfef95601890afd80709''
          ''356a192b7913b04c54574d18c28d46e6395428ab'' ''second'' 1700000000)).
        isParentLine line"
    by (subst parent_line_iff [THEN conjunct1]) simp_all
qed

subsection \<open>C8: the timestamp read from a commit\<close>

text \<open>
  C8 at its failing inputs. \<^verbatim>\<open>parseCommit\<close> takes as timestamp what follows the last
  space of the committer line (\<^verbatim>\<open>rfind(' ')\<close>, line 389). On every commit that
  \<^verbatim>\<open>createCommit\<close> writes, the committer line ends with the seconds, a space and
  \<open>+0000\<close>, so the field \<^verbatim>\<open>timestamp\<close> receives the time-zone offset \<open>+0000\<close>, never
  the seconds before it.
\<close>

theorem parseCommit_timestamp_is_offset:
  assumes "NL \<notin> set t" and "NL \<notin> set p"
  shows "timestamp (parseCommit (commitData t p m now)) = ''+0000'' \<and>
         committer (parseCommit (commitData t p m now)) =
           ''User <user@example.com> '' @ show_int now @ '' +0000''"
  unfolding parseCommit_commitData [OF assms] by simp

text \<open>The theorem at a root commit made at second 1700000000.\<close>

theorem parseCommit_timestamp_is_offset_witness:
  "timestamp (parseCommit (commitData ''da39a3ee5e6b4b0d3255bfef95601890afd80709'' [] ''first'' 1700000000))
     = ''+0000'' \<and>
   committer (parseCommit (commitData ''da39a3ee5e6b4b0d3255bfef95601890afd80709'' [] ''first'' 1700000000))
     = ''User <user@example.com> 1700000000 +0000''"
proof -
  have s: "show_int 1700000000 = ''1700000000''"
    by (simp add: show_int_def to_string.simps digit_char_def)
  show ?thesis
    using parseCommit_timestamp_is_offset [of "''da39a3ee5e6b4b0d3255bfef95601890afd80709''" "[]" "''first''" 1700000000]
    by (simp add: s)
qed


subsection \<open>Running \<^verbatim>\<open>cmdCommit\<close>\<close>

lemma getlines_from_Nil_iff: "getlines_from cur s = [] \<longleftrightarrow> cur = [] \<and> s = []"
  by (induction s arbitrary: cur) auto

lemma parseIndex_Nil_iff: "parseIndex text = [] \<longleftrightarrow> text = []"
  by (simp add: parseIndex_def getlines_def getlines_from_Nil_iff)

lemma readIndex_Nil_iff:
  "readIndex W = [] \<longleftrightarrow> files W indexPath = None \<or> files W indexPath = Some []"
  by (simp add: readIndex_def parseIndex_Nil_iff split: option.splits)





subsection \<open>C9: committing an empty index\<close>

text \<open>
  C9. The index read at commit time is empty exactly when the index file is absent or
  holds no byte. In that case \<^verbatim>\<open>cmdCommit\<close> returns the world it was given, with
  the one line \<open>Nothing to commit\<close> printed: no object is written, and \<open>HEAD\<close>, the
  ref file, the log and the index file are what they were.
\<close>

theorem commit_nothing_to_commit:
  "(readIndex W = [] \<longleftrightarrow> files W indexPath = None \<or> files W indexPath = Some []) \<and>
   (readIndex W = [] \<longrightarrow>
      cmdCommit E W msg t1 t2 = Inr (W\<lparr>trace := trace W @ [Stdout (''Nothing to commit'' @ [NL])]\<rparr>))"
  by (simp add: readIndex_Nil_iff cmdCommit_def createTreeFromIndex_def emit_def)


text \<open>The theorem in the repository that \<^verbatim>\<open>cmdInit\<close> leaves.\<close>

theorem commit_nothing_to_commit_witness:
  "readIndex initWorld = [] \<and>
   cmdCommit exampleEnv initWorld ''first'' 1700000000 1700000000 =
     Inr (initWorld\<lparr>trace := trace initWorld @ [Stdout (''Nothing to commit'' @ [NL])]\<rparr>)"
proof -
  have "files initWorld indexPath = Some []"
    by (simp add: initWorld_def)
  then have "readIndex initWorld = []"
    using commit_nothing_to_commit [of initWorld] by simp
  then show ?thesis
    using commit_nothing_to_commit [of initWorld exampleEnv "''first''" 1700000000 1700000000]
    by simp
qed

subsection \<open>C3: what a commit leaves behind\<close>








subsection \<open>The retry loop of \<^verbatim>\<open>decompressData\<close>\<close>

lemma decompressLoop_stop:
  "attemptStops alloc unc c s \<Longrightarrow> decompressLoop alloc unc c s = Some (attemptOutcome alloc unc c s)"
  by (subst decompressLoop.simps)
     (auto simp: attemptStops_def attemptOutcome_def split: prod.splits)

lemma decompressLoop_retry:
  "\<not> attemptStops alloc unc c s \<Longrightarrow>
   decompressLoop alloc unc c s = decompressLoop alloc unc c (fst (snd (unc s c)) * 2)"
  by (subst decompressLoop.simps)
     (auto simp: attemptStops_def Z_OK_def Z_BUF_ERROR_def split: prod.splits)

lemma decompressLoop_returns:
  assumes "\<forall>j < k. \<not> attemptStops alloc unc c (attemptSize unc c s j)"
    and "attemptStops alloc unc c (attemptSize unc c s k)"
  shows "decompressLoop alloc unc c s = Some (attemptOutcome alloc unc c (attemptSize unc c s k))"
  using assms
proof (induction k arbitrary: s)
  case 0
  then show ?case by (simp add: decompressLoop_stop)
next
  case (Suc k)
  from Suc.prems(1) have first: "\<not> attemptStops alloc unc c s"
    by (metis attemptSize.simps(1) zero_less_Suc)
  have later: "\<forall>j < k. \<not> attemptStops alloc unc c (attemptSize unc c (fst (snd (unc s c)) * 2) j)"
  proof (intro allI impI)
    fix j assume "j < k"
    then have "Suc j < Suc k" by simp
    with Suc.prems(1) have "\<not> attemptStops alloc unc c (attemptSize unc c s (Suc j))"
      by blast
    then show "\<not> attemptStops alloc unc c (attemptSize unc c (fst (snd (unc s c)) * 2) j)"
      by simp
  qed
  have last: "attemptStops alloc unc c (attemptSize unc c (fst (snd (unc s c)) * 2) k)"
    using Suc.prems(2) by simp
  have "decompressLoop alloc unc c s = decompressLoop alloc unc c (fst (snd (unc s c)) * 2)"
    using first by (rule decompressLoop_retry)
  also have "\<dots> = Some (attemptOutcome alloc unc c (attemptSize unc c (fst (snd (unc s c)) * 2) k))"
    using later last by (rule Suc.IH)
  finally show ?case by simp
qed

lemma attemptSize_doubles:
  assumes "zlibContract unc"
    and "\<forall>j < k. \<not> attemptStops alloc unc c (attemptSize unc c s j)"
  shows "attemptSize unc c s k = s * 2 ^ k"
  using assms(2)
proof (induction k arbitrary: s)
  case 0
  then show ?case by simp
next
  case (Suc k)
  from Suc.prems have "\<not> attemptStops alloc unc c (attemptSize unc c s 0)" by blast
  then have "fst (unc s c) = Z_BUF_ERROR" by (simp add: attemptStops_def)
  with assms(1) have same: "fst (snd (unc s c)) = s" by (simp add: zlibContract_def)
  have later: "\<forall>j < k. \<not> attemptStops alloc unc c (attemptSize unc c (s * 2) j)"
  proof (intro allI impI)
    fix j assume "j < k"
    then have "Suc j < Suc k" by simp
    with Suc.prems have "\<not> attemptStops alloc unc c (attemptSize unc c s (Suc j))" by blast
    then show "\<not> attemptStops alloc unc c (attemptSize unc c (s * 2) j)"
      by (simp add: same)
  qed
  have "attemptSize unc c s (Suc k) = attemptSize unc c (s * 2) k" by (simp add: same)
  also have "\<dots> = s * 2 * 2 ^ k" using later by (rule Suc.IH)
  finally show ?case by (simp add: mult.assoc)
qed

lemma attempt_stops_within_width:
  fixes unc :: "('w::len) uncompress"
  assumes "zlibContract unc"
  shows "\<exists>k \<le> LENGTH('w). attemptStops alloc unc c (attemptSize unc c s k)"
proof (rule ccontr)
  assume "\<not> (\<exists>k \<le> LENGTH('w). attemptStops alloc unc c (attemptSize unc c s k))"
  then have none: "\<forall>k \<le> LENGTH('w). \<not> attemptStops alloc unc c (attemptSize unc c s k)" by blast
  then have "\<forall>j < LENGTH('w). \<not> attemptStops alloc unc c (attemptSize unc c s j)" by simp
  with assms have "attemptSize unc c s LENGTH('w) = s * 2 ^ LENGTH('w)"
    by (rule attemptSize_doubles)
  then have zero: "attemptSize unc c s LENGTH('w) = 0" by simp
  from none have "\<not> attemptStops alloc unc c (attemptSize unc c s LENGTH('w))" by blast
  then have "fst (unc 0 c) = Z_BUF_ERROR" by (simp add: zero attemptStops_def)
  with assms show False unfolding zlibContract_def by blast
qed

lemma attemptOutcome_cases:
  "attemptOutcome alloc unc c sz = Inl AllocationFailure \<or>
   (\<exists>bytes. attemptOutcome alloc unc c sz = Inr (bytes, [])) \<or>
   attemptOutcome alloc unc c sz = Inr ([], [Stderr (''Error: Decompression failed'' @ [NL])])"
  by (auto simp: attemptOutcome_def split: prod.splits)

lemma zlibContract_inflating: "zlibContract (inflating n)"
  by (simp add: zlibContract_def inflating_def Z_OK_def Z_BUF_ERROR_def Z_DATA_ERROR_def)

lemma decompressData_small_stream:
  "decompressData (\<lambda>n. True) (inflating 25 :: 32 uncompress) ''x''
     = Some (Inr (replicate 25 (CHR ''a''), []))"
proof -
  have before: "\<forall>j < Suc (Suc 0). \<not> attemptStops (\<lambda>n. True) (inflating 25 :: 32 uncompress) ''x''
                  (attemptSize (inflating 25) ''x'' (of_nat (length ''x'' * 10)) j)"
    by (simp add: less_Suc_eq attemptStops_def inflating_def)
  have stops: "attemptStops (\<lambda>n. True) (inflating 25 :: 32 uncompress) ''x''
                  (attemptSize (inflating 25) ''x'' (of_nat (length ''x'' * 10)) (Suc (Suc 0)))"
    by (simp add: attemptStops_def inflating_def Z_OK_def Z_BUF_ERROR_def)
  have "decompressData (\<lambda>n. True) (inflating 25 :: 32 uncompress) ''x'' =
        Some (attemptOutcome (\<lambda>n. True) (inflating 25 :: 32 uncompress) ''x''
               (attemptSize (inflating 25) ''x'' (of_nat (length ''x'' * 10)) (Suc (Suc 0))))"
    unfolding decompressData_def using before stops by (rule decompressLoop_returns)
  then show ?thesis by (simp add: attemptOutcome_def inflating_def resize_def)
qed

subsection \<open>C5: decompression terminates\<close>

text \<open>
  C5. Let the library answer as zlib does: \<^verbatim>\<open>Z_BUF_ERROR\<close> only for a buffer of
  non-zero size that it filled completely. Then for every input, and for every width
  \<open>'w\<close> of \<^verbatim>\<open>uLongf\<close>, \<^verbatim>\<open>decompressData\<close> terminates, after \<open>'w\<close> retries at most. It
  retries on \<^verbatim>\<open>Z_BUF_ERROR\<close> and on nothing else, each time with twice the size; after
  \<open>'w\<close> doublings at the latest the size is 0, the ceiling of the buffer, where the
  library no longer asks for room. The loop ends at the first attempt whose buffer
  cannot be allocated or whose result is not \<^verbatim>\<open>Z_BUF_ERROR\<close>, in one of three ways:
  the decoded bytes, for \<^verbatim>\<open>Z_OK\<close>; the empty string after the message
  \<open>Error: Decompression failed\<close>, for any other code (the program's report of a stream
  that does not decode, and of one too large for the sizes tried); or the exception of
  the allocation that failed.
\<close>

theorem decompressData_terminates:
  fixes unc :: "('w::len) uncompress"
  assumes "zlibContract unc"
  shows "\<exists>k \<le> LENGTH('w).
           (\<forall>j < k. \<not> attemptStops alloc unc c (attemptSize unc c (of_nat (length c * 10)) j)) \<and>
           attemptStops alloc unc c (attemptSize unc c (of_nat (length c * 10)) k) \<and>
           decompressData alloc unc c =
             Some (attemptOutcome alloc unc c (attemptSize unc c (of_nat (length c * 10)) k)) \<and>
           (decompressData alloc unc c = Some (Inl AllocationFailure) \<or>
            (\<exists>bytes. decompressData alloc unc c = Some (Inr (bytes, []))) \<or>
            decompressData alloc unc c =
              Some (Inr ([], [Stderr (''Error: Decompression failed'' @ [NL])])))"
proof -
  let ?s = "of_nat (length c * 10) :: 'w word"
  let ?stops = "\<lambda>k. attemptStops alloc unc c (attemptSize unc c ?s k)"
  from attempt_stops_within_width [OF assms, of alloc c ?s]
  obtain k1 where k1: "k1 \<le> LENGTH('w)" "?stops k1" by blast
  define k where "k = (LEAST j. ?stops j)"
  have stops: "?stops k" unfolding k_def using k1(2) by (rule LeastI)
  have "k \<le> k1" unfolding k_def using k1(2) by (rule Least_le)
  with k1(1) have bound: "k \<le> LENGTH('w)" by simp
  have before: "\<forall>j < k. \<not> ?stops j"
    unfolding k_def using not_less_Least by blast
  have result: "decompressData alloc unc c = Some (attemptOutcome alloc unc c (attemptSize unc c ?s k))"
    unfolding decompressData_def using before stops by (rule decompressLoop_returns)
  have kinds: "decompressData alloc unc c = Some (Inl AllocationFailure) \<or>
            (\<exists>bytes. decompressData alloc unc c = Some (Inr (bytes, []))) \<or>
            decompressData alloc unc c =
              Some (Inr ([], [Stderr (''Error: Decompression failed'' @ [NL])]))"
    unfolding result using attemptOutcome_cases [of alloc unc c "attemptSize unc c ?s k"] by simp
  from bound before stops result kinds show ?thesis by blast
qed

text \<open>The theorem for a stream of 25 bytes, and for a stream that needs \<open>2 ^ 32\<close>
  bytes with a 32-bit \<^verbatim>\<open>uLongf\<close>: the size wraps around to 0 and the function returns
  the empty string with its error message.\<close>

theorem decompressData_terminates_witness:
  "(\<exists>res. decompressData (\<lambda>n. True) (inflating 25 :: 32 uncompress) ''x'' = Some res) \<and>
   decompressData (\<lambda>n. True) (inflating (2 ^ 32) :: 32 uncompress) ''x'' =
     Some (Inr ([], [Stderr (''Error: Decompression failed'' @ [NL])]))"
proof
  from decompressData_terminates [OF zlibContract_inflating, of "\<lambda>n. True" 25 "''x''", where 'w = 32]
  show "\<exists>res. decompressData (\<lambda>n. True) (inflating 25 :: 32 uncompress) ''x'' = Some res"
    by blast
next
  let ?unc = "inflating (2 ^ 32) :: 32 uncompress"
  have out: "attemptOutcome (\<lambda>n. True) ?unc ''x'' sz =
               Inr ([], [Stderr (''Error: Decompression failed'' @ [NL])])" for sz
  proof -
    have "unat sz < 2 ^ LENGTH(32)" by (rule unsigned_less)
    then show ?thesis
      by (simp add: attemptOutcome_def inflating_def Z_OK_def Z_BUF_ERROR_def Z_DATA_ERROR_def)
  qed
  from decompressData_terminates [OF zlibContract_inflating, of "\<lambda>n. True" "2 ^ 32" "''x''", where 'w = 32]
  show "decompressData (\<lambda>n. True) ?unc ''x'' =
          Some (Inr ([], [Stderr (''Error: Decompression failed'' @ [NL])]))"
    unfolding out by blast
qed

subsection \<open>The clearing loop of \<^verbatim>\<open>cmdCheckout\<close>\<close>

lemma clear_fst:
  "fst (cmdCheckout_clear rm es) =
     concat (map (\<lambda>(nm, nd). if isProtected nm then [(nm, nd)]
                   else case rm nm nd of Removed \<Rightarrow> [] | Failed what left \<Rightarrow> [(nm, left)]) es)"
  by (induction es) (auto split: prod.splits removal.splits)

lemma clear_snd:
  "snd (cmdCheckout_clear rm es) =
     concat (map (\<lambda>(nm, nd). if isProtected nm then []
                   else case rm nm nd of Removed \<Rightarrow> []
                        | Failed what left \<Rightarrow> [removalWarning nm what]) es)"
  by (induction es) (auto split: prod.splits removal.splits)

lemma clear_names_subset:
  "fst ` set (fst (cmdCheckout_clear rm es)) \<subseteq> fst ` set es"
  unfolding clear_fst by (force split: if_splits removal.splits)

lemma clear_keeps_protected:
  "(nm, nd) \<in> set es \<Longrightarrow> isProtected nm \<Longrightarrow> (nm, nd) \<in> set (fst (cmdCheckout_clear rm es))"
  unfolding clear_fst by force

lemma clear_removes:
  assumes "distinct (map fst es)" and "(nm, nd) \<in> set es" and "\<not> isProtected nm"
    and "rm nm nd = Removed"
  shows "nm \<notin> fst ` set (fst (cmdCheckout_clear rm es))"
proof
  assume "nm \<in> fst ` set (fst (cmdCheckout_clear rm es))"
  then obtain n d where nd: "(n, d) \<in> set es"
    and kept: "nm \<in> fst ` set (if isProtected n then [(n, d)]
                   else case rm n d of Removed \<Rightarrow> [] | Failed what left \<Rightarrow> [(n, left)])"
    unfolding clear_fst by auto
  from kept have "n = nm" by (auto split: if_splits removal.splits)
  with nd assms(1,2) have "d = nd" by (meson eq_key_imp_eq_value)
  with kept \<open>n = nm\<close> assms(3,4) show False by simp
qed

lemma clear_failed:
  "(nm, nd) \<in> set es \<Longrightarrow> \<not> isProtected nm \<Longrightarrow> rm nm nd = Failed what left \<Longrightarrow>
   (nm, left) \<in> set (fst (cmdCheckout_clear rm es)) \<and>
   removalWarning nm what \<in> set (snd (cmdCheckout_clear rm es))"
  unfolding clear_fst clear_snd by force

subsection \<open>C10: what checkout protects\<close>

text \<open>
  C10. The names the clearing loop skips are exactly \<open>.\<close>, \<open>..\<close>, \<open>.mygit\<close>,
  \<open>mygit.exe\<close>, \<open>main.cpp\<close> and \<open>makefile\<close>. For every immediate child of the root:
  if its name is one of these, the child is still there, unchanged, after the loop;
  otherwise it is removed recursively and no child of that name remains, unless the
  removal fails, in which case a warning naming the child is printed and the loop goes
  on with what the failed removal left. The loop adds no child.
\<close>

theorem checkout_clear_protected_set:
  assumes "distinct (map fst es)" and "(nm, nd) \<in> set es"
  shows "(isProtected nm \<longleftrightarrow>
            nm \<in> {''.'', ''..'', ''.mygit'', ''mygit.exe'', ''main.cpp'', ''makefile''}) \<and>
         (isProtected nm \<longrightarrow> (nm, nd) \<in> set (fst (cmdCheckout_clear rm es))) \<and>
         (\<not> isProtected nm \<longrightarrow>
            (case rm nm nd of
               Removed \<Rightarrow> nm \<notin> fst ` set (fst (cmdCheckout_clear rm es))
             | Failed what left \<Rightarrow>
                 (nm, left) \<in> set (fst (cmdCheckout_clear rm es)) \<and>
                 removalWarning nm what \<in> set (snd (cmdCheckout_clear rm es)))) \<and>
         fst ` set (fst (cmdCheckout_clear rm es)) \<subseteq> fst ` set es"
proof (intro conjI impI)
  show "isProtected nm \<longleftrightarrow>
          nm \<in> {''.'', ''..'', ''.mygit'', ''mygit.exe'', ''main.cpp'', ''makefile''}"
    by (auto simp: isProtected_def REPO_DIR_def)
  show "(nm, nd) \<in> set (fst (cmdCheckout_clear rm es))" if "isProtected nm"
    using assms(2) that by (rule clear_keeps_protected)
  show "case rm nm nd of
          Removed \<Rightarrow> nm \<notin> fst ` set (fst (cmdCheckout_clear rm es))
        | Failed what left \<Rightarrow>
            (nm, left) \<in> set (fst (cmdCheckout_clear rm es)) \<and>
            removalWarning nm what \<in> set (snd (cmdCheckout_clear rm es))"
    if "\<not> isProtected nm"
  proof (cases "rm nm nd")
    case Removed
    with clear_removes [OF assms that] show ?thesis by simp
  next
    case (Failed what left)
    with clear_failed [OF assms(2) that] show ?thesis by simp
  qed
  show "fst ` set (fst (cmdCheckout_clear rm es)) \<subseteq> fst ` set es"
    by (rule clear_names_subset)
qed


text \<open>The theorem in a directory with a protected file, a directory that is removed
  and a file whose removal fails.\<close>

theorem checkout_clear_protected_set_witness:
  "(''main.cpp'', File ''int main() {}'') \<in> set (fst (cmdCheckout_clear exampleRemoveAll exampleListing)) \<and>
   ''sub'' \<notin> fst ` set (fst (cmdCheckout_clear exampleRemoveAll exampleListing)) \<and>
   (''locked.txt'', File ''x'') \<in> set (fst (cmdCheckout_clear exampleRemoveAll exampleListing)) \<and>
   removalWarning ''locked.txt'' ''Access is denied''
     \<in> set (snd (cmdCheckout_clear exampleRemoveAll exampleListing))"
proof -
  have d: "distinct (map fst exampleListing)"
    by (simp add: exampleListing_def)
  have m: "(''main.cpp'', File ''int main() {}'') \<in> set exampleListing"
    and s: "(''sub'', Dir [(''a'', File ''A'')]) \<in> set exampleListing"
    and l: "(''locked.txt'', File ''x'') \<in> set exampleListing"
    by (simp_all add: exampleListing_def)
  have pm: "isProtected ''main.cpp''" and ps: "\<not> isProtected ''sub''"
    and pl: "\<not> isProtected ''locked.txt''"
    by (simp_all add: isProtected_def REPO_DIR_def)
  have rs: "exampleRemoveAll ''sub'' (Dir [(''a'', File ''A'')]) = Removed"
    and rl: "exampleRemoveAll ''locked.txt'' (File ''x'') = Failed ''Access is denied'' (File ''x'')"
    by (simp_all add: exampleRemoveAll_def)
  from checkout_clear_protected_set [OF d m, of exampleRemoveAll] pm
  have 1: "(''main.cpp'', File ''int main() {}'') \<in> set (fst (cmdCheckout_clear exampleRemoveAll exampleListing))"
    by blast
  from checkout_clear_protected_set [OF d s, of exampleRemoveAll] ps rs
  have 2: "''sub'' \<notin> fst ` set (fst (cmdCheckout_clear exampleRemoveAll exampleListing))"
    by simp
  from checkout_clear_protected_set [OF d l, of exampleRemoveAll] pl rl
  have 3: "(''locked.txt'', File ''x'') \<in> set (fst (cmdCheckout_clear exampleRemoveAll exampleListing)) \<and>
   removalWarning ''locked.txt'' ''Access is denied''
     \<in> set (snd (cmdCheckout_clear exampleRemoveAll exampleListing))"
    by simp
  from 1 2 3 show ?thesis by blast
qed


end
